theory Spec2Isabelle
  imports Main
begin

section \<open>Nucleotide sequences: the data model\<close>

text \<open>
  The development follows \<^verbatim>\<open>skbio/sequence/_nucleotide_sequence.py\<close>. A sequence
  object carries its raw symbols (the attribute \<^verbatim>\<open>_string\<close>), its identifier and
  description, and optional per-position quality scores (\<^verbatim>\<open>None\<close> when absent).
  Iterating a sequence yields its symbols one by one, and \<^verbatim>\<open>str(base)\<close> of such
  a one-symbol item is the symbol itself, so a symbol is a \<^typ>\<open>char\<close>.
\<close>

record sequence =
  raw_string :: string
  seq_id :: string
  description :: string
  quality :: "int list option"

text \<open>
  Python exceptions are values. \<^verbatim>\<open>KeyError\<close> carries the key that was looked up;
  \<^verbatim>\<open>UnknownMotif\<close> carries the motif name; \<^verbatim>\<open>InvalidInput\<close> is what the
  coercion helper of \<^verbatim>\<open>is_reverse_complement\<close> may raise; \<^verbatim>\<open>DuplicateMotif\<close> is the
  failure of a registration under a name that is already taken.
\<close>

datatype py_error =
  KeyError char | TypeError | UnknownMotif string | InvalidInput | DuplicateMotif string

text \<open>
  Python's exception hierarchy: \<^verbatim>\<open>KeyError\<close> derives from \<^verbatim>\<open>LookupError\<close>,
  \<^verbatim>\<open>TypeError\<close> does not. The specification places the unknown-motif condition in
  the \<^verbatim>\<open>LookupError\<close> class and the coercion failure outside it.
\<close>

fun is_LookupError :: "py_error \<Rightarrow> bool" where
  "is_LookupError (KeyError k) = True"
| "is_LookupError TypeError = False"
| "is_LookupError (UnknownMotif n) = True"
| "is_LookupError InvalidInput = False"
| "is_LookupError (DuplicateMotif n) = False"

text \<open>
  The value of the class property \<^verbatim>\<open>complement_map\<close>. Concrete variants supply a
  \<^verbatim>\<open>dict\<close> from symbols to symbols. In \<^verbatim>\<open>NucleotideSequence\<close> itself the property
  is abstract and its body, \<^verbatim>\<open>return set()\<close>, is a placeholder: the class cannot be
  instantiated, so no sequence has this \<^verbatim>\<open>set\<close> as its complement map. The value is
  modelled all the same, to state properties that hold whatever the map is.
\<close>

datatype complement_map_value = PyDict "char \<rightharpoonup> char" | PySet "char set"

text \<open>
  Subscription \<^verbatim>\<open>complement_map[k]\<close>: a \<^verbatim>\<open>dict\<close> raises \<^verbatim>\<open>KeyError(k)\<close> on a
  missing key; a \<^verbatim>\<open>set\<close> is not subscriptable and raises \<^verbatim>\<open>TypeError\<close> for
  every key.
\<close>

fun getitem :: "complement_map_value \<Rightarrow> char \<Rightarrow> py_error + char" where
  "getitem (PyDict m) k = (case m k of None \<Rightarrow> Inl (KeyError k) | Some v \<Rightarrow> Inr v)"
| "getitem (PySet S) k = Inl TypeError"

text \<open>The body of the abstract property of the unspecialized class: \<^verbatim>\<open>return set()\<close>.\<close>

definition NucleotideSequence_complement_map :: complement_map_value where
  "NucleotideSequence_complement_map = PySet {}"

section \<open>The complement engine\<close>

text \<open>
  The list comprehension \<^verbatim>\<open>[complement_map[str(base)] for base in seq_iterator]\<close>
  evaluates left to right and stops at the first lookup that raises.
\<close>

fun complement_symbols :: "complement_map_value \<Rightarrow> string \<Rightarrow> py_error + string" where
  "complement_symbols cm [] = Inr []"
| "complement_symbols cm (base # bases) =
     (case getitem cm base of
        Inl e \<Rightarrow> Inl e
      | Inr c \<Rightarrow>
          (case complement_symbols cm bases of
             Inl e \<Rightarrow> Inl e
           | Inr cs \<Rightarrow> Inr (c # cs)))"

text \<open>\<^verbatim>\<open>_has_quality\<close>: quality scores are present.\<close>

definition has_quality :: "sequence \<Rightarrow> bool" where
  "has_quality self = (quality self \<noteq> None)"

text \<open>
  Modelled from the spec: the container's rebuild operation \<^verbatim>\<open>_to\<close> (class
  \<^verbatim>\<open>Sequence\<close> is not in this module). It builds a new instance of the same variant
  with the given symbols and quality; identifier and description are copied unchanged.
\<close>

definition to_sequence :: "sequence \<Rightarrow> string \<Rightarrow> int list option \<Rightarrow> sequence" where
  "to_sequence self s q = self\<lparr>raw_string := s, quality := q\<rparr>"

text \<open>
  \<^verbatim>\<open>complement(self, reverse=False)\<close>, with the variant's \<^verbatim>\<open>complement_map\<close>
  as the first argument. \<^verbatim>\<open>reversed(self)\<close> iterates the symbols from last to
  first and \<^verbatim>\<open>self.quality[::-1]\<close> is the reversed quality array.
\<close>

definition complement :: "complement_map_value \<Rightarrow> sequence \<Rightarrow> bool \<Rightarrow> py_error + sequence" where
  "complement complement_map self reverse =
     (let seq_iterator = (if reverse then rev (raw_string self) else raw_string self) in
      case complement_symbols complement_map seq_iterator of
        Inl e \<Rightarrow> Inl e
      | Inr result \<Rightarrow>
          (let q = (if has_quality self \<and> reverse
                    then map_option rev (quality self)
                    else quality self)
           in Inr (to_sequence self result q)))"

text \<open>\<^verbatim>\<open>reverse_complement(self)\<close> is \<^verbatim>\<open>return self.complement(reverse=True)\<close>.\<close>

definition reverse_complement :: "complement_map_value \<Rightarrow> sequence \<Rightarrow> py_error + sequence" where
  "reverse_complement complement_map self = complement complement_map self True"

text \<open>
  \<^verbatim>\<open>is_reverse_complement(self, other)\<close>. The coercion helper
  \<^verbatim>\<open>_munge_to_sequence\<close> lives in the container class, outside this module; it is the
  parameter \<open>munge_to_sequence\<close>, which either raises or returns a sequence. The length
  of a sequence is the length of its raw symbols.
\<close>

definition is_reverse_complement ::
  "('o \<Rightarrow> py_error + sequence) \<Rightarrow> complement_map_value \<Rightarrow> sequence \<Rightarrow> 'o \<Rightarrow> py_error + bool" where
  "is_reverse_complement munge_to_sequence complement_map self other =
     (case munge_to_sequence other of
        Inl e \<Rightarrow> Inl e
      | Inr other' \<Rightarrow>
          if length (raw_string self) \<noteq> length (raw_string other') then Inr False
          else (case reverse_complement complement_map self of
                  Inl e \<Rightarrow> Inl e
                | Inr rc \<Rightarrow> Inr (raw_string rc = raw_string other')))"

text \<open>
  Modelled from the spec: the complement table of the DNA variant is not in this module.
  The specification's standard DNA mapping pairs the four unambiguous bases, A with T and
  C with G (under it the complement of \<^verbatim>\<open>ACGT\<close> is \<^verbatim>\<open>TGCA\<close>). It serves as the
  concrete table wherever a theorem below is instantiated.
\<close>

definition standard_dna_complement_map :: "char \<rightharpoonup> char" where
  "standard_dna_complement_map =
     [CHR ''A'' \<mapsto> CHR ''T'', CHR ''T'' \<mapsto> CHR ''A'',
      CHR ''C'' \<mapsto> CHR ''G'', CHR ''G'' \<mapsto> CHR ''C'']"

text \<open>
  Modelled from the spec: coercion of a plain string, the simplest case of the container's
  coercion helper, builds a sequence with these symbols and no metadata or quality,
  without validating the symbols.
\<close>

definition sequence_of_string :: "string \<Rightarrow> py_error + sequence" where
  "sequence_of_string x = Inr \<lparr>raw_string = x, seq_id = [], description = [], quality = None\<rparr>"

section \<open>Motif detection\<close>

text \<open>
  A match span is a half-open range \<open>[start, end)\<close> of sequence positions.
\<close>

type_synonym span = "nat \<times> nat"

definition span_length :: "span \<Rightarrow> nat" where
  "span_length sp = snd sp - fst sp"

text \<open>
  The two detectors of this module build the patterns \<^verbatim>\<open>"([AGR]{%d,})" % min_length\<close>
  and \<^verbatim>\<open>"([CTUY]{%d,})" % min_length\<close>: one group, a character class repeated at least
  \<open>min_length\<close> times, greedily. \<open>ClassRun cls n\<close> is the pattern \<^verbatim>\<open>([cls]{n,})\<close>;
  \<open>min_length\<close> is a non-negative integer.
\<close>

datatype regex = ClassRun string nat

text \<open>
  The scan of Python's \<^verbatim>\<open>re.finditer\<close> for such a pattern, from position \<open>pos\<close> over
  the rest \<open>str\<close> of the text: at each position the greedy repetition consumes the
  longest run of class symbols; with at least \<open>n\<close> of them this is a match and the scan
  resumes at its end, otherwise the scan moves one position on. With \<open>n = 0\<close> the pattern
  also matches the empty string, at the end of the text too, and the scan steps over an
  empty match.
\<close>

function finditer_class_run :: "string \<Rightarrow> nat \<Rightarrow> nat \<Rightarrow> string \<Rightarrow> span list" where
  "finditer_class_run cls n pos [] = (if n = 0 then [(pos, pos)] else [])"
| "finditer_class_run cls n pos (c # cs) =
     (let k = length (takeWhile (\<lambda>x. x \<in> set cls) (c # cs)) in
      if n \<le> k \<and> 0 < k then (pos, pos + k) # finditer_class_run cls n (pos + k) (drop k (c # cs))
      else if n \<le> k then (pos, pos) # finditer_class_run cls n (Suc pos) cs
      else finditer_class_run cls n (Suc pos) cs)"
  by pat_completeness auto
termination
  by (relation "measure (\<lambda>(cls, n, pos, str). length str)") auto

fun finditer :: "regex \<Rightarrow> string \<Rightarrow> span list" where
  "finditer (ClassRun cls n) str = finditer_class_run cls n 0 str"

text \<open>
  Exclusion spans: \<^verbatim>\<open>exclude=None\<close> excludes nothing, otherwise a position is excluded
  when one of the given spans contains it.
\<close>

definition is_excluded :: "span list option \<Rightarrow> nat \<Rightarrow> bool" where
  "is_excluded exclude p =
     (case exclude of
        None \<Rightarrow> False
      | Some spans \<Rightarrow> (\<exists>sp \<in> set spans. fst sp \<le> p \<and> p < snd sp))"

definition touches_excluded :: "span list option \<Rightarrow> span \<Rightarrow> bool" where
  "touches_excluded exclude sp = (\<exists>p \<in> {fst sp..<snd sp}. is_excluded exclude p)"

definition kept_positions :: "string \<Rightarrow> span list option \<Rightarrow> nat list" where
  "kept_positions str exclude = filter (\<lambda>p. \<not> is_excluded exclude p) [0..<length str]"

definition searchable_text :: "string \<Rightarrow> span list option \<Rightarrow> string" where
  "searchable_text str exclude = map (\<lambda>p. str ! p) (kept_positions str exclude)"

text \<open>
  A match \<open>[a, b)\<close> in the searchable text, reported in the coordinates of the sequence:
  from the position of its first symbol to just after the position of its last symbol. An
  empty match is reported as the empty span at the position where it sits.
\<close>

definition original_span :: "nat \<Rightarrow> nat list \<Rightarrow> span \<Rightarrow> span" where
  "original_span n lookup m =
     (if fst m < snd m then (lookup ! fst m, Suc (lookup ! (snd m - 1)))
      else (let p = (if fst m < length lookup then lookup ! fst m else n) in (p, p)))"

text \<open>
  The specification leaves open how excluded spans act on the scan: they are either
  subtracted from the searchable text before matching, so that a run continues across an
  excluded stretch, or applied as a filter on the matches of the whole text.
\<close>

datatype exclude_policy = SubtractBeforeMatching | FilterAfterMatching

text \<open>
  Modelled from the spec: the container's regex-based span scanner
  \<^verbatim>\<open>slices_from_regex\<close> (class \<^verbatim>\<open>Sequence\<close> is not in this module). It scans the raw
  symbols for the pattern and yields one span per match, in scan order, honouring the
  exclusion spans under either policy.
\<close>

definition slices_from_regex ::
  "exclude_policy \<Rightarrow> sequence \<Rightarrow> regex \<Rightarrow> span list option \<Rightarrow> span list" where
  "slices_from_regex policy self re exclude =
     (case policy of
        SubtractBeforeMatching \<Rightarrow>
          map (original_span (length (raw_string self)) (kept_positions (raw_string self) exclude))
            (finditer re (searchable_text (raw_string self) exclude))
      | FilterAfterMatching \<Rightarrow>
          filter (\<lambda>m. \<not> touches_excluded exclude m) (finditer re (raw_string self)))"

text \<open>
  \<^verbatim>\<open>_motif_purine_run\<close> and \<^verbatim>\<open>_motif_pyrimidine_run\<close>: each builds its pattern from
  \<open>min_length\<close> and hands it, with the exclusion spans, to the scanner.
\<close>

definition motif_purine_run ::
  "exclude_policy \<Rightarrow> sequence \<Rightarrow> nat \<Rightarrow> span list option \<Rightarrow> span list" where
  "motif_purine_run policy sequence min_length exclude =
     slices_from_regex policy sequence (ClassRun ''AGR'' min_length) exclude"

definition motif_pyrimidine_run ::
  "exclude_policy \<Rightarrow> sequence \<Rightarrow> nat \<Rightarrow> span list option \<Rightarrow> span list" where
  "motif_pyrimidine_run policy sequence min_length exclude =
     slices_from_regex policy sequence (ClassRun ''CTUY'' min_length) exclude"

text \<open>
  A registry maps motif names to detectors and keeps the order of registration.
\<close>

type_synonym detector = "sequence \<Rightarrow> nat \<Rightarrow> span list option \<Rightarrow> span list"

type_synonym registry = "(string \<times> detector) list"

text \<open>
  Modelled from the spec: the registry operations (the registry class is not in this
  module). \<^verbatim>\<open>copy\<close> forks an independent registry with the same entries; a registration
  adds the detector under its name, after the entries already present, and fails when the
  name is taken.
\<close>

definition registry_copy :: "registry \<Rightarrow> registry" where
  "registry_copy reg = reg"

definition register :: "string \<Rightarrow> detector \<Rightarrow> registry \<Rightarrow> py_error + registry" where
  "register name d reg =
     (if map_of reg name \<noteq> None then Inl (DuplicateMotif name) else Inr (reg @ [(name, d)]))"

text \<open>
  The module's registry \<^verbatim>\<open>_motifs\<close>: a copy of the parent family's registry, the
  parameter \<open>parent_motifs\<close>, to which the two decorators add \<^verbatim>\<open>"purine-run"\<close> and then
  \<^verbatim>\<open>"pyrimidine-run"\<close>.
\<close>

definition nucleotide_motifs :: "exclude_policy \<Rightarrow> registry \<Rightarrow> py_error + registry" where
  "nucleotide_motifs policy parent_motifs =
     (case register ''purine-run'' (motif_purine_run policy) (registry_copy parent_motifs) of
        Inl e \<Rightarrow> Inl e
      | Inr reg \<Rightarrow> register ''pyrimidine-run'' (motif_pyrimidine_run policy) reg)"

text \<open>
  Modelled from the spec: \<^verbatim>\<open>find_motifs\<close> (defined in the parent class, not in this
  module). With a name it looks that single detector up in the family's registry and fails
  with the unknown-motif condition when the name is absent; without a name it runs every
  registered detector, in registration order, and merges the spans.
\<close>

definition find_motifs ::
  "registry \<Rightarrow> sequence \<Rightarrow> string option \<Rightarrow> nat \<Rightarrow> span list option \<Rightarrow> py_error + span list" where
  "find_motifs reg self name min_length exclude =
     (case name of
        Some nm \<Rightarrow>
          (case map_of reg nm of
             None \<Rightarrow> Inl (UnknownMotif nm)
           | Some d \<Rightarrow> Inr (d self min_length exclude))
      | None \<Rightarrow> Inr (concat (map (\<lambda>entry. snd entry self min_length exclude) reg)))"

text \<open>
  The property the detectors are specified by. In the text \<open>str\<close> the span \<open>[a, b)\<close> is
  a maximal run of length at least \<open>n\<close> over the symbol set \<open>cls\<close> when it is non-empty
  and within the text, all of its symbols are in the set, it has at least \<open>n\<close> symbols,
  and it can be extended neither to the right nor to the left.
\<close>

definition is_maximal_run :: "string \<Rightarrow> nat \<Rightarrow> string \<Rightarrow> span \<Rightarrow> bool" where
  "is_maximal_run cls n str sp =
     (fst sp < snd sp \<and> snd sp \<le> length str
      \<and> (\<forall>p \<in> {fst sp..<snd sp}. str ! p \<in> set cls)
      \<and> n \<le> snd sp - fst sp
      \<and> (snd sp < length str \<longrightarrow> str ! snd sp \<notin> set cls)
      \<and> (0 < fst sp \<longrightarrow> str ! (fst sp - 1) \<notin> set cls))"

definition shift :: "nat \<Rightarrow> span \<Rightarrow> span" where
  "shift d sp = (d + fst sp, d + snd sp)"

section \<open>Basic facts about the symbol loop\<close>

lemma complement_symbols_dict_ok:
  "\<forall>c \<in> set bs. m c \<noteq> None \<Longrightarrow>
   complement_symbols (PyDict m) bs = Inr (map (\<lambda>c. the (m c)) bs)"
  by (induction bs) auto

lemma complement_symbols_length:
  "complement_symbols cm bs = Inr cs \<Longrightarrow> length cs = length bs"
  by (induction bs arbitrary: cs) (auto split: sum.splits)

lemma complement_symbols_Inr_iff:
  "complement_symbols cm bs = Inr cs \<longleftrightarrow>
     length cs = length bs \<and> (\<forall>i<length bs. getitem cm (bs ! i) = Inr (cs ! i))"
proof (induction bs arbitrary: cs)
  case Nil
  then show ?case by auto
next
  case (Cons b bs)
  show ?case
  proof (cases cs)
    case Nil
    then show ?thesis by (auto split: sum.splits)
  next
    case (Cons c cs')
    then show ?thesis
      using Cons.IH [of cs'] by (auto split: sum.splits simp: nth_Cons split: nat.splits)
  qed
qed

lemma complement_symbols_total:
  "\<forall>c \<in> set bs. \<exists>d. getitem cm c = Inr d \<Longrightarrow> \<exists>cs. complement_symbols cm bs = Inr cs"
  by (induction bs) (auto split: sum.splits)

text \<open>
  With a \<^verbatim>\<open>dict\<close>, the loop stops at the first symbol, in iteration order, that has no
  entry, and the \<^verbatim>\<open>KeyError\<close> carries exactly that symbol.
\<close>

lemma complement_symbols_dict_missing:
  "\<forall>c \<in> set pre. m c \<noteq> None \<Longrightarrow> m k = None \<Longrightarrow>
   complement_symbols (PyDict m) (pre @ k # post) = Inl (KeyError k)"
  by (induction pre) auto

text \<open>A \<^verbatim>\<open>set\<close> fails on the very first subscription, whatever the symbol.\<close>

lemma complement_symbols_set:
  "bs \<noteq> [] \<Longrightarrow> complement_symbols (PySet S) bs = Inl TypeError"
  by (cases bs) auto

lemma complement_Inr_iff:
  "complement cm s reverse = Inr r \<longleftrightarrow>
     (\<exists>cs. complement_symbols cm (if reverse then rev (raw_string s) else raw_string s) = Inr cs
        \<and> r = to_sequence s cs (if has_quality s \<and> reverse then map_option rev (quality s) else quality s))"
  by (auto simp: complement_def Let_def split: sum.splits)

lemma complement_total:
  assumes "\<forall>c \<in> set (raw_string s). \<exists>d. getitem cm c = Inr d"
  shows "\<exists>r. complement cm s reverse = Inr r"
proof -
  have "\<forall>c \<in> set (if reverse then rev (raw_string s) else raw_string s). \<exists>d. getitem cm c = Inr d"
    using assms by simp
  from complement_symbols_total [OF this] show ?thesis
    unfolding complement_Inr_iff by blast
qed

lemma complement_dict_valid:
  assumes "\<forall>c \<in> set (raw_string s). m c \<noteq> None"
  shows "complement (PyDict m) s reverse =
           Inr (to_sequence s (map (\<lambda>c. the (m c)) (if reverse then rev (raw_string s) else raw_string s))
                  (if has_quality s \<and> reverse then map_option rev (quality s) else quality s))"
proof -
  have "\<forall>c \<in> set (if reverse then rev (raw_string s) else raw_string s). m c \<noteq> None"
    using assms by simp
  from complement_symbols_dict_ok [OF this] show ?thesis
    by (simp add: complement_def Let_def)
qed

lemma reverse_complement_dict_valid:
  assumes "\<forall>c \<in> set (raw_string s). m c \<noteq> None"
  shows "reverse_complement (PyDict m) s =
           Inr (to_sequence s (map (\<lambda>c. the (m c)) (rev (raw_string s)))
                  (if has_quality s then map_option rev (quality s) else quality s))"
  using complement_dict_valid [OF assms, of True] by (simp add: reverse_complement_def)

text \<open>
  Whenever some symbol has no entry in a \<^verbatim>\<open>dict\<close> complement map, \<^verbatim>\<open>complement\<close>
  raises the \<^verbatim>\<open>KeyError\<close> of the first symbol, in iteration order, that is missing
  from the map; no default is substituted.
\<close>

lemma complement_dict_first_missing:
  assumes "\<exists>c \<in> set (raw_string s). m c = None"
  shows "\<exists>k pre post. (if reverse then rev (raw_string s) else raw_string s) = pre @ k # post
           \<and> (\<forall>c \<in> set pre. m c \<noteq> None) \<and> m k = None
           \<and> complement (PyDict m) s reverse = Inl (KeyError k)"
proof -
  define bs where "bs = (if reverse then rev (raw_string s) else raw_string s)"
  have ex: "\<exists>c \<in> set bs. m c = None"
    using assms by (simp add: bs_def)
  obtain pre k post where split: "bs = pre @ k # post"
    and k: "m k = None" and pre: "\<forall>c \<in> set pre. m c \<noteq> None"
    using split_list_first_prop [OF ex] by auto
  have "complement_symbols (PyDict m) bs = Inl (KeyError k)"
    unfolding split by (rule complement_symbols_dict_missing [OF pre k])
  then have "complement (PyDict m) s reverse = Inl (KeyError k)"
    by (simp add: complement_def bs_def)
  with split k pre show ?thesis
    unfolding bs_def by blast
qed

text \<open>
  With the empty \<^verbatim>\<open>dict\<close> the very first lookup fails: the error names the first
  symbol iterated, the first symbol of the sequence, or its last one under
  \<^verbatim>\<open>reverse=True\<close>.
\<close>

lemma complement_empty_dict:
  assumes "raw_string s \<noteq> []"
  shows "complement (PyDict Map.empty) s reverse
         = Inl (KeyError (if reverse then last (raw_string s) else hd (raw_string s)))"
proof -
  define bs where "bs = (if reverse then rev (raw_string s) else raw_string s)"
  have ne: "bs \<noteq> []" using assms by (simp add: bs_def)
  then obtain b bs' where b: "bs = b # bs'" by (cases bs) auto
  have "hd bs = (if reverse then last (raw_string s) else hd (raw_string s))"
    using assms by (simp add: bs_def hd_rev)
  moreover have "complement_symbols (PyDict Map.empty) bs = Inl (KeyError (hd bs))"
    by (simp add: b)
  ultimately show ?thesis
    by (simp add: complement_def bs_def)
qed

section \<open>The complement engine: verified properties\<close>

text \<open>
  Claim C1. With a complement map that sends T to A, C to G and A to T (as every DNA
  table does), the sequence \<^verbatim>\<open>TTCATT\<close> with quality \<^verbatim>\<open>[0,1,2,3,4,5]\<close> has the
  complement \<^verbatim>\<open>AAGTAA\<close> with the same quality, and with \<^verbatim>\<open>reverse=True\<close> the
  result \<^verbatim>\<open>AATGAA\<close> with quality \<^verbatim>\<open>[5,4,3,2,1,0]\<close>; identifier and description are
  carried over.
\<close>

theorem complement_TTCATT_example:
  assumes "m CHR ''T'' = Some CHR ''A''" and "m CHR ''C'' = Some CHR ''G''"
    and "m CHR ''A'' = Some CHR ''T''"
  shows "complement (PyDict m)
           \<lparr>raw_string = ''TTCATT'', seq_id = i, description = d, quality = Some [0, 1, 2, 3, 4, 5]\<rparr> False
         = Inr \<lparr>raw_string = ''AAGTAA'', seq_id = i, description = d, quality = Some [0, 1, 2, 3, 4, 5]\<rparr>
       \<and> complement (PyDict m)
           \<lparr>raw_string = ''TTCATT'', seq_id = i, description = d, quality = Some [0, 1, 2, 3, 4, 5]\<rparr> True
         = Inr \<lparr>raw_string = ''AATGAA'', seq_id = i, description = d, quality = Some [5, 4, 3, 2, 1, 0]\<rparr>"
  using assms by (simp add: complement_def has_quality_def to_sequence_def)

theorem complement_TTCATT_example_witness:
  "standard_dna_complement_map CHR ''T'' = Some CHR ''A''
   \<and> standard_dna_complement_map CHR ''C'' = Some CHR ''G''
   \<and> standard_dna_complement_map CHR ''A'' = Some CHR ''T''
   \<and> complement (PyDict standard_dna_complement_map)
           \<lparr>raw_string = ''TTCATT'', seq_id = ''s'', description = [], quality = Some [0, 1, 2, 3, 4, 5]\<rparr> False
         = Inr \<lparr>raw_string = ''AAGTAA'', seq_id = ''s'', description = [], quality = Some [0, 1, 2, 3, 4, 5]\<rparr>
   \<and> complement (PyDict standard_dna_complement_map)
           \<lparr>raw_string = ''TTCATT'', seq_id = ''s'', description = [], quality = Some [0, 1, 2, 3, 4, 5]\<rparr> True
         = Inr \<lparr>raw_string = ''AATGAA'', seq_id = ''s'', description = [], quality = Some [5, 4, 3, 2, 1, 0]\<rparr>"
proof -
  have t: "standard_dna_complement_map CHR ''T'' = Some CHR ''A''"
    and c: "standard_dna_complement_map CHR ''C'' = Some CHR ''G''"
    and a: "standard_dna_complement_map CHR ''A'' = Some CHR ''T''"
    by (simp_all add: standard_dna_complement_map_def)
  from complement_TTCATT_example [OF t c a, of "''s''" "[]"] t c a show ?thesis
    by simp
qed

text \<open>
  Claim C2. For every sequence carrying quality scores and every complement map: whenever
  \<^verbatim>\<open>complement(reverse=True)\<close> returns, the quality of the result is the reversed
  quality of the input, so the score at output position \<open>i\<close> is the input score at
  position \<open>n - 1 - i\<close>, in lockstep with the symbols (the symbol at output position
  \<open>i\<close> is the complement of the input symbol at position \<open>n - 1 - i\<close>); whenever
  \<^verbatim>\<open>complement(reverse=False)\<close> returns, the quality is the input quality unchanged;
  and both calls do return when every symbol of the sequence has a complement.
\<close>

theorem complement_quality_alignment:
  assumes "quality s = Some q"
  shows "(\<forall>r. complement cm s True = Inr r \<longrightarrow>
            quality r = Some (rev q)
            \<and> (\<forall>i<length q. rev q ! i = q ! (length q - 1 - i))
            \<and> (\<forall>i<length (raw_string s).
                  getitem cm (raw_string s ! (length (raw_string s) - 1 - i)) = Inr (raw_string r ! i)))
       \<and> (\<forall>r. complement cm s False = Inr r \<longrightarrow> quality r = Some q)
       \<and> ((\<forall>c \<in> set (raw_string s). \<exists>d. getitem cm c = Inr d) \<longrightarrow>
            (\<exists>r. complement cm s True = Inr r) \<and> (\<exists>r. complement cm s False = Inr r))"
proof -
  have rev_case: "quality r = Some (rev q)
            \<and> (\<forall>i<length q. rev q ! i = q ! (length q - 1 - i))
            \<and> (\<forall>i<length (raw_string s).
                  getitem cm (raw_string s ! (length (raw_string s) - 1 - i)) = Inr (raw_string r ! i))"
    if r: "complement cm s True = Inr r" for r
  proof -
    from r obtain cs where cs: "complement_symbols cm (rev (raw_string s)) = Inr cs"
      and r_def: "r = to_sequence s cs (map_option rev (quality s))"
      using assms by (auto simp: complement_Inr_iff has_quality_def)
    have q: "quality r = Some (rev q)"
      using r_def assms by (simp add: to_sequence_def)
    have idx: "\<forall>i<length q. rev q ! i = q ! (length q - 1 - i)"
      by (simp add: rev_nth)
    have sym: "getitem cm (raw_string s ! (length (raw_string s) - 1 - i)) = Inr (raw_string r ! i)"
      if i: "i < length (raw_string s)" for i
    proof -
      from cs have "getitem cm (rev (raw_string s) ! i) = Inr (cs ! i)"
        using i by (simp add: complement_symbols_Inr_iff)
      moreover have "rev (raw_string s) ! i = raw_string s ! (length (raw_string s) - 1 - i)"
        using i by (simp add: rev_nth)
      moreover have "raw_string r = cs"
        using r_def by (simp add: to_sequence_def)
      ultimately show ?thesis by simp
    qed
    from q idx sym show ?thesis by blast
  qed
  have fwd_case: "quality r = Some q" if "complement cm s False = Inr r" for r
    using that assms by (auto simp: complement_Inr_iff to_sequence_def)
  have total: "(\<exists>r. complement cm s True = Inr r) \<and> (\<exists>r. complement cm s False = Inr r)"
    if "\<forall>c \<in> set (raw_string s). \<exists>d. getitem cm c = Inr d"
    using complement_total [OF that] by blast
  from rev_case fwd_case total show ?thesis by blast
qed

theorem complement_quality_alignment_witness:
  "quality \<lparr>raw_string = ''TTCATT'', seq_id = ''s'', description = [], quality = Some [0, 1, 2, 3, 4, 5]\<rparr>
     = Some [0, 1, 2, 3, 4, 5]
   \<and> complement (PyDict standard_dna_complement_map)
        \<lparr>raw_string = ''TTCATT'', seq_id = ''s'', description = [], quality = Some [0, 1, 2, 3, 4, 5]\<rparr> True
      = Inr \<lparr>raw_string = ''AATGAA'', seq_id = ''s'', description = [], quality = Some [5, 4, 3, 2, 1, 0]\<rparr>
   \<and> quality \<lparr>raw_string = ''AATGAA'', seq_id = ''s'', description = [], quality = Some [5, 4, 3, 2, 1, 0]\<rparr>
      = Some (rev [0, 1, 2, 3, 4, 5])
   \<and> complement (PyDict standard_dna_complement_map)
        \<lparr>raw_string = ''TTCATT'', seq_id = ''s'', description = [], quality = Some [0, 1, 2, 3, 4, 5]\<rparr> False
      = Inr \<lparr>raw_string = ''AAGTAA'', seq_id = ''s'', description = [], quality = Some [0, 1, 2, 3, 4, 5]\<rparr>"
proof -
  let ?s = "\<lparr>raw_string = ''TTCATT'', seq_id = ''s'', description = [], quality = Some [0, 1, 2, 3, 4, 5]\<rparr>"
  have q: "quality ?s = Some [0, 1, 2, 3, 4, 5]" by simp
  have t: "complement (PyDict standard_dna_complement_map) ?s True
      = Inr \<lparr>raw_string = ''AATGAA'', seq_id = ''s'', description = [], quality = Some [5, 4, 3, 2, 1, 0]\<rparr>"
    by (simp add: complement_def has_quality_def to_sequence_def standard_dna_complement_map_def)
  have f: "complement (PyDict standard_dna_complement_map) ?s False
      = Inr \<lparr>raw_string = ''AAGTAA'', seq_id = ''s'', description = [], quality = Some [0, 1, 2, 3, 4, 5]\<rparr>"
    by (simp add: complement_def has_quality_def to_sequence_def standard_dna_complement_map_def)
  from complement_quality_alignment [OF q, of "PyDict standard_dna_complement_map"] t f
  show ?thesis by simp
qed

text \<open>
  Claim C3. For every sequence all of whose symbols have an entry in the complement map,
  the map being an involution on these symbols, the reverse complement of the reverse
  complement exists and has the symbols of the original sequence.
\<close>

theorem reverse_complement_involution:
  assumes "\<forall>c \<in> set (raw_string s). \<exists>d. m c = Some d \<and> m d = Some c"
  shows "\<exists>r1 r2. reverse_complement (PyDict m) s = Inr r1
           \<and> reverse_complement (PyDict m) r1 = Inr r2
           \<and> raw_string r2 = raw_string s"
proof -
  define f where "f = (\<lambda>c. the (m c))"
  define r1 where "r1 = to_sequence s (map f (rev (raw_string s)))
                          (if has_quality s then map_option rev (quality s) else quality s)"
  define r2 where "r2 = to_sequence r1 (map f (rev (raw_string r1)))
                          (if has_quality r1 then map_option rev (quality r1) else quality r1)"
  have v1: "\<forall>c \<in> set (raw_string s). m c \<noteq> None"
    using assms by auto
  have e1: "reverse_complement (PyDict m) s = Inr r1"
    unfolding r1_def f_def by (rule reverse_complement_dict_valid [OF v1])
  have s1: "raw_string r1 = map f (rev (raw_string s))"
    by (simp add: r1_def to_sequence_def)
  have invol: "m (f c) = Some c \<and> f (f c) = c" if "c \<in> set (raw_string s)" for c
    using assms that by (auto simp: f_def)
  have v2: "\<forall>c \<in> set (raw_string r1). m c \<noteq> None"
    unfolding s1 using invol by auto
  have e2: "reverse_complement (PyDict m) r1 = Inr r2"
    unfolding r2_def f_def by (rule reverse_complement_dict_valid [OF v2])
  have "raw_string r2 = map f (rev (map f (rev (raw_string s))))"
    by (simp add: r2_def s1 to_sequence_def)
  also have "... = map (\<lambda>c. f (f c)) (raw_string s)"
    by (simp add: rev_map)
  also have "... = raw_string s"
    using invol by (simp add: map_idI)
  finally have "raw_string r2 = raw_string s" .
  with e1 e2 show ?thesis by blast
qed

theorem reverse_complement_involution_witness:
  "reverse_complement (PyDict standard_dna_complement_map)
        \<lparr>raw_string = ''TTCATT'', seq_id = ''s'', description = [], quality = Some [0, 1, 2, 3, 4, 5]\<rparr>
      = Inr \<lparr>raw_string = ''AATGAA'', seq_id = ''s'', description = [], quality = Some [5, 4, 3, 2, 1, 0]\<rparr>
   \<and> reverse_complement (PyDict standard_dna_complement_map)
        \<lparr>raw_string = ''AATGAA'', seq_id = ''s'', description = [], quality = Some [5, 4, 3, 2, 1, 0]\<rparr>
      = Inr \<lparr>raw_string = ''TTCATT'', seq_id = ''s'', description = [], quality = Some [0, 1, 2, 3, 4, 5]\<rparr>"
proof -
  let ?s = "\<lparr>raw_string = ''TTCATT'', seq_id = ''s'', description = [], quality = Some [0, 1, 2, 3, 4, 5]\<rparr>"
  have v: "\<forall>c \<in> set (raw_string ?s). \<exists>d. standard_dna_complement_map c = Some d
              \<and> standard_dna_complement_map d = Some c"
    by (simp add: standard_dna_complement_map_def)
  have a: "reverse_complement (PyDict standard_dna_complement_map) ?s
      = Inr \<lparr>raw_string = ''AATGAA'', seq_id = ''s'', description = [], quality = Some [5, 4, 3, 2, 1, 0]\<rparr>"
    by (simp add: reverse_complement_def complement_def has_quality_def to_sequence_def
        standard_dna_complement_map_def)
  have b: "reverse_complement (PyDict standard_dna_complement_map)
        \<lparr>raw_string = ''AATGAA'', seq_id = ''s'', description = [], quality = Some [5, 4, 3, 2, 1, 0]\<rparr>
      = Inr ?s"
    by (simp add: reverse_complement_def complement_def has_quality_def to_sequence_def
        standard_dna_complement_map_def)
  from reverse_complement_involution [OF v] a b show ?thesis by simp
qed

text \<open>
  Claim C5. \<^verbatim>\<open>reverse_complement\<close> returns, for every sequence and every complement
  map, exactly what \<^verbatim>\<open>complement\<close> returns with \<^verbatim>\<open>reverse=True\<close>, errors included.
\<close>

theorem reverse_complement_alias: "reverse_complement cm s = complement cm s True"
  by (simp add: reverse_complement_def)

text \<open>
  Claim C6. When the coercion of \<open>other\<close> succeeds and yields a sequence whose length
  differs from that of \<open>self\<close>, \<^verbatim>\<open>is_reverse_complement\<close> returns \<^verbatim>\<open>False\<close> and
  raises nothing. This holds for every complement map and every symbol content, hence also
  where taking the reverse complement of \<open>self\<close> would raise and where the symbols of
  \<open>other\<close> are outside the alphabet: the result does not depend on any complement.
\<close>

theorem is_reverse_complement_length_mismatch:
  assumes "munge other = Inr other'"
    and "length (raw_string s) \<noteq> length (raw_string other')"
  shows "is_reverse_complement munge cm s other = Inr False"
  using assms by (simp add: is_reverse_complement_def)

theorem is_reverse_complement_length_mismatch_witness:
  "sequence_of_string ''XX!'' = Inr \<lparr>raw_string = ''XX!'', seq_id = [], description = [], quality = None\<rparr>
   \<and> length (raw_string \<lparr>raw_string = ''ACGT'', seq_id = ''s'', description = [], quality = None\<rparr>)
       \<noteq> length (raw_string \<lparr>raw_string = ''XX!'', seq_id = [], description = [], quality = None\<rparr>)
   \<and> is_reverse_complement sequence_of_string NucleotideSequence_complement_map
        \<lparr>raw_string = ''ACGT'', seq_id = ''s'', description = [], quality = None\<rparr> ''XX!'' = Inr False
   \<and> reverse_complement NucleotideSequence_complement_map
        \<lparr>raw_string = ''ACGT'', seq_id = ''s'', description = [], quality = None\<rparr> = Inl TypeError"
proof -
  let ?s = "\<lparr>raw_string = ''ACGT'', seq_id = ''s'', description = [], quality = None\<rparr>"
  let ?o = "\<lparr>raw_string = ''XX!'', seq_id = [], description = [], quality = None\<rparr>"
  have m: "sequence_of_string ''XX!'' = Inr ?o"
    by (simp add: sequence_of_string_def)
  have l: "length (raw_string ?s) \<noteq> length (raw_string ?o)" by simp
  have e: "reverse_complement NucleotideSequence_complement_map ?s = Inl TypeError"
    by (simp add: reverse_complement_def complement_def NucleotideSequence_complement_map_def)
  from is_reverse_complement_length_mismatch
         [where munge = sequence_of_string and other = "''XX!''" and other' = ?o and s = ?s
            and cm = NucleotideSequence_complement_map, OF m l] m l e
  show ?thesis by simp
qed

text \<open>
  Claim C7. When the coercion of \<open>other\<close> succeeds and yields a sequence of the same
  length as \<open>self\<close>, \<^verbatim>\<open>is_reverse_complement\<close> returns \<^verbatim>\<open>True\<close> exactly when the
  reverse complement of \<open>self\<close> exists and its raw symbols equal the raw symbols of the
  coerced \<open>other\<close>; when the reverse complement exists the call returns the truth value
  of that equality. Only the raw symbols matter: replacing either value by one with the
  same symbols but other quality, identifier or description leaves the result unchanged.
  The function is pure, it returns only the boolean.
\<close>

theorem is_reverse_complement_same_length:
  assumes "munge other = Inr other'"
    and "length (raw_string s) = length (raw_string other')"
  shows "(is_reverse_complement munge cm s other = Inr True \<longleftrightarrow>
            (\<exists>rc. reverse_complement cm s = Inr rc \<and> raw_string rc = raw_string other'))
       \<and> (\<forall>rc. reverse_complement cm s = Inr rc \<longrightarrow>
            is_reverse_complement munge cm s other = Inr (raw_string rc = raw_string other'))
       \<and> (\<forall>munge2 other2 o2 s2.
            munge2 other2 = Inr o2 \<and> raw_string o2 = raw_string other' \<and> raw_string s2 = raw_string s \<longrightarrow>
            is_reverse_complement munge2 cm s2 other2 = is_reverse_complement munge cm s other)"
proof -
  have iff: "is_reverse_complement munge cm s other = Inr True \<longleftrightarrow>
            (\<exists>rc. reverse_complement cm s = Inr rc \<and> raw_string rc = raw_string other')"
    using assms by (cases "reverse_complement cm s") (simp_all add: is_reverse_complement_def)
  have val: "\<forall>rc. reverse_complement cm s = Inr rc \<longrightarrow>
            is_reverse_complement munge cm s other = Inr (raw_string rc = raw_string other')"
    using assms by (simp add: is_reverse_complement_def)
  have only_symbols: "is_reverse_complement munge2 cm s2 other2 = is_reverse_complement munge cm s other"
    if h: "munge2 other2 = Inr o2 \<and> raw_string o2 = raw_string other' \<and> raw_string s2 = raw_string s"
    for munge2 :: "'c \<Rightarrow> py_error + sequence" and other2 o2 s2
  proof (cases "complement_symbols cm (rev (raw_string s))")
    case (Inl e)
    then show ?thesis
      using assms h
      by (simp add: is_reverse_complement_def reverse_complement_def complement_def)
  next
    case (Inr cs)
    then show ?thesis
      using assms h
      by (simp add: is_reverse_complement_def reverse_complement_def complement_def to_sequence_def)
  qed
  from iff val only_symbols show ?thesis by blast
qed


theorem is_reverse_complement_same_length_witness:
  "sequence_of_string ''AATGAA'' = Inr \<lparr>raw_string = ''AATGAA'', seq_id = [], description = [], quality = None\<rparr>
   \<and> length (raw_string \<lparr>raw_string = ''TTCATT'', seq_id = ''s'', description = [], quality = Some [0, 1, 2, 3, 4, 5]\<rparr>)
       = length (raw_string \<lparr>raw_string = ''AATGAA'', seq_id = [], description = [], quality = None\<rparr>)
   \<and> reverse_complement (PyDict standard_dna_complement_map)
        \<lparr>raw_string = ''TTCATT'', seq_id = ''s'', description = [], quality = Some [0, 1, 2, 3, 4, 5]\<rparr>
      = Inr \<lparr>raw_string = ''AATGAA'', seq_id = ''s'', description = [], quality = Some [5, 4, 3, 2, 1, 0]\<rparr>
   \<and> is_reverse_complement sequence_of_string (PyDict standard_dna_complement_map)
        \<lparr>raw_string = ''TTCATT'', seq_id = ''s'', description = [], quality = Some [0, 1, 2, 3, 4, 5]\<rparr>
        ''AATGAA'' = Inr True"
proof -
  let ?s = "\<lparr>raw_string = ''TTCATT'', seq_id = ''s'', description = [], quality = Some [0, 1, 2, 3, 4, 5]\<rparr>"
  let ?o = "\<lparr>raw_string = ''AATGAA'', seq_id = [], description = [], quality = None\<rparr>"
  let ?rc = "\<lparr>raw_string = ''AATGAA'', seq_id = ''s'', description = [], quality = Some [5, 4, 3, 2, 1, 0]\<rparr>"
  have m: "sequence_of_string ''AATGAA'' = Inr ?o"
    by (simp add: sequence_of_string_def)
  have l: "length (raw_string ?s) = length (raw_string ?o)" by simp
  have rc: "reverse_complement (PyDict standard_dna_complement_map) ?s = Inr ?rc"
    by (simp add: reverse_complement_def complement_def has_quality_def to_sequence_def
        standard_dna_complement_map_def)
  have ex: "\<exists>r. reverse_complement (PyDict standard_dna_complement_map) ?s = Inr r
              \<and> raw_string r = raw_string ?o"
    unfolding rc by simp
  have "is_reverse_complement sequence_of_string (PyDict standard_dna_complement_map) ?s ''AATGAA'' = Inr True"
    using is_reverse_complement_same_length
         [where munge = sequence_of_string and other = "''AATGAA''" and other' = ?o and s = ?s
            and cm = "PyDict standard_dna_complement_map", OF m l, THEN conjunct1] ex
    by (rule iffD2)
  with m l rc show ?thesis by (simp only: simp_thms)
qed

text \<open>
  Claim C10. For an empty sequence \<^verbatim>\<open>complement\<close> returns an empty sequence, with
  either value of \<^verbatim>\<open>reverse\<close> and with every complement map, the \<^verbatim>\<open>set()\<close> of the
  unspecialized class and the empty \<^verbatim>\<open>dict\<close> included, since the loop performs no
  lookup. Hence \<^verbatim>\<open>complement\<close> raises only on non-empty sequences.
\<close>

theorem complement_empty_sequence:
  "(raw_string s = [] \<longrightarrow> (\<exists>r. complement cm s reverse = Inr r \<and> raw_string r = []))
   \<and> (complement cm s reverse = Inl e \<longrightarrow> raw_string s \<noteq> [])"
  by (auto simp: complement_def to_sequence_def)

theorem complement_empty_sequence_witness:
  "raw_string \<lparr>raw_string = [], seq_id = ''s'', description = [], quality = None\<rparr> = []
   \<and> complement NucleotideSequence_complement_map
        \<lparr>raw_string = [], seq_id = ''s'', description = [], quality = None\<rparr> True
      = Inr \<lparr>raw_string = [], seq_id = ''s'', description = [], quality = None\<rparr>
   \<and> complement NucleotideSequence_complement_map
        \<lparr>raw_string = ''A'', seq_id = ''s'', description = [], quality = None\<rparr> False = Inl TypeError
   \<and> raw_string \<lparr>raw_string = ''A'', seq_id = ''s'', description = [], quality = None\<rparr> \<noteq> []"
proof -
  let ?e = "\<lparr>raw_string = [], seq_id = ''s'', description = [], quality = None\<rparr>"
  let ?a = "\<lparr>raw_string = ''A'', seq_id = ''s'', description = [], quality = None\<rparr>"
  have e: "raw_string ?e = []" by simp
  have f: "complement NucleotideSequence_complement_map ?a False = Inl TypeError"
    by (simp add: complement_def NucleotideSequence_complement_map_def)
  have g: "complement NucleotideSequence_complement_map ?e True = Inr ?e"
    by (simp add: complement_def to_sequence_def has_quality_def)
  from complement_empty_sequence [of ?a NucleotideSequence_complement_map False TypeError] f
  have "raw_string ?a \<noteq> []" by blast
  with complement_empty_sequence [of ?e NucleotideSequence_complement_map True] e f g
  show ?thesis by simp
qed

text \<open>
  Claim C4. With the empty mapping as complement map, \<^verbatim>\<open>complement\<close> of every
  non-empty sequence fails, and more generally so does \<^verbatim>\<open>complement\<close> of every
  sequence one of whose symbols has no entry in the complement map. The failure is a
  \<^verbatim>\<open>KeyError\<close>, of the \<^verbatim>\<open>LookupError\<close> class, and it carries the offending symbol:
  the first symbol in iteration order that has no entry, a symbol of the sequence. No
  result is returned, so nothing is defaulted. The class \<^verbatim>\<open>NucleotideSequence\<close> itself
  is abstract, \<^verbatim>\<open>complement_map\<close> being an abstract property: every sequence belongs
  to a concrete variant, whose complement map is a \<^verbatim>\<open>dict\<close>.
\<close>

theorem complement_missing_symbol_LookupError:
  "(raw_string s \<noteq> [] \<longrightarrow>
      complement (PyDict Map.empty) s reverse
        = Inl (KeyError (if reverse then last (raw_string s) else hd (raw_string s)))
      \<and> is_LookupError (KeyError (if reverse then last (raw_string s) else hd (raw_string s))))
   \<and> ((\<exists>c \<in> set (raw_string s). m c = None) \<longrightarrow>
      (\<exists>k pre post. (if reverse then rev (raw_string s) else raw_string s) = pre @ k # post
          \<and> (\<forall>c \<in> set pre. m c \<noteq> None) \<and> m k = None
          \<and> k \<in> set (raw_string s)
          \<and> complement (PyDict m) s reverse = Inl (KeyError k)
          \<and> is_LookupError (KeyError k)
          \<and> (\<forall>r. complement (PyDict m) s reverse \<noteq> Inr r)))"
proof (intro conjI impI)
  assume "raw_string s \<noteq> []"
  then show "complement (PyDict Map.empty) s reverse
        = Inl (KeyError (if reverse then last (raw_string s) else hd (raw_string s)))"
    by (rule complement_empty_dict)
next
  show "is_LookupError (KeyError (if reverse then last (raw_string s) else hd (raw_string s)))"
    by simp
next
  assume "\<exists>c \<in> set (raw_string s). m c = None"
  from complement_dict_first_missing [OF this, of reverse]
  obtain k pre post where split: "(if reverse then rev (raw_string s) else raw_string s) = pre @ k # post"
    and pre: "\<forall>c \<in> set pre. m c \<noteq> None" and k: "m k = None"
    and c: "complement (PyDict m) s reverse = Inl (KeyError k)"
    by blast
  have "k \<in> set (if reverse then rev (raw_string s) else raw_string s)"
    unfolding split by simp
  then have mem: "k \<in> set (raw_string s)"
    by (simp split: if_splits)
  have "\<forall>r. complement (PyDict m) s reverse \<noteq> Inr r"
    using c by simp
  with split pre k mem c show "\<exists>k pre post.
      (if reverse then rev (raw_string s) else raw_string s) = pre @ k # post
      \<and> (\<forall>c \<in> set pre. m c \<noteq> None) \<and> m k = None
      \<and> k \<in> set (raw_string s)
      \<and> complement (PyDict m) s reverse = Inl (KeyError k)
      \<and> is_LookupError (KeyError k)
      \<and> (\<forall>r. complement (PyDict m) s reverse \<noteq> Inr r)"
    by (intro exI [of _ k] exI [of _ pre] exI [of _ post]) simp
qed

theorem complement_missing_symbol_LookupError_witness:
  "raw_string \<lparr>raw_string = ''A'', seq_id = ''s'', description = [], quality = None\<rparr> \<noteq> []
   \<and> complement (PyDict Map.empty)
        \<lparr>raw_string = ''A'', seq_id = ''s'', description = [], quality = None\<rparr> False
      = Inl (KeyError CHR ''A'')
   \<and> standard_dna_complement_map CHR ''X'' = None
   \<and> complement (PyDict standard_dna_complement_map)
        \<lparr>raw_string = ''ACXT'', seq_id = ''s'', description = [], quality = None\<rparr> False
      = Inl (KeyError CHR ''X'')
   \<and> complement (PyDict standard_dna_complement_map)
        \<lparr>raw_string = ''ACXT'', seq_id = ''s'', description = [], quality = None\<rparr> True
      = Inl (KeyError CHR ''X'')
   \<and> is_LookupError (KeyError CHR ''X'')"
proof -
  let ?a = "\<lparr>raw_string = ''A'', seq_id = ''s'', description = [], quality = None\<rparr>"
  let ?x = "\<lparr>raw_string = ''ACXT'', seq_id = ''s'', description = [], quality = None\<rparr>"
  have ne: "raw_string ?a \<noteq> []" by simp
  have x: "standard_dna_complement_map CHR ''X'' = None"
    by (simp add: standard_dna_complement_map_def)
  have fwd: "complement (PyDict standard_dna_complement_map) ?x False = Inl (KeyError CHR ''X'')"
    by (simp add: complement_def standard_dna_complement_map_def)
  have bwd: "complement (PyDict standard_dna_complement_map) ?x True = Inl (KeyError CHR ''X'')"
    by (simp add: complement_def standard_dna_complement_map_def)
  from complement_missing_symbol_LookupError [of ?a False standard_dna_complement_map] ne
  have "complement (PyDict Map.empty) ?a False = Inl (KeyError CHR ''A'')"
    by simp
  with ne x fwd bwd show ?thesis by simp
qed

section \<open>The scan for class runs finds the maximal runs\<close>

text \<open>
  The lemmas below relate the scan to the maximal runs of the text: first how the runs of
  a text decompose along one step of the scan, then the scan itself by computation
  induction.
\<close>

lemma prefix_le_takeWhile:
  "m \<le> length xs \<Longrightarrow> \<forall>p<m. P (xs ! p) \<Longrightarrow> m \<le> length (takeWhile P xs)"
proof (induction xs arbitrary: m)
  case Nil
  then show ?case by simp
next
  case (Cons x xs)
  show ?case
  proof (cases m)
    case 0
    then show ?thesis by simp
  next
    case (Suc m')
    with Cons.prems have "P x" by auto
    moreover have "m' \<le> length (takeWhile P xs)"
      using Cons.prems Suc by (intro Cons.IH) auto
    ultimately show ?thesis using Suc by simp
  qed
qed

lemma takeWhile_all: "p < length (takeWhile P xs) \<Longrightarrow> P (xs ! p)"
  by (metis nth_mem set_takeWhileD takeWhile_nth)

lemma is_maximal_run_iff:
  "is_maximal_run cls n xs (a, b) \<longleftrightarrow>
     a < b \<and> b \<le> length xs \<and> (\<forall>p. a \<le> p \<and> p < b \<longrightarrow> xs ! p \<in> set cls) \<and> n \<le> b - a
     \<and> (b < length xs \<longrightarrow> xs ! b \<notin> set cls)
     \<and> (0 < a \<longrightarrow> xs ! (a - 1) \<notin> set cls)"
  by (auto simp: is_maximal_run_def)

lemma run_from_start_le_takeWhile:
  assumes "is_maximal_run cls n xs (0, b)"
  shows "n \<le> b \<and> b \<le> length (takeWhile (\<lambda>x. x \<in> set cls) xs)"
proof -
  from assms have "b \<le> length xs" and "\<forall>p<b. xs ! p \<in> set cls" and "n \<le> b"
    by (auto simp: is_maximal_run_iff)
  with prefix_le_takeWhile [of b xs "\<lambda>x. x \<in> set cls"] show ?thesis by simp
qed

lemma all_range_shift:
  "(\<forall>p. (d::nat) + a \<le> p \<and> p < d + b \<longrightarrow> Q p) \<longleftrightarrow> (\<forall>p. a \<le> p \<and> p < b \<longrightarrow> Q (d + p))"
proof
  assume l: "\<forall>p. d + a \<le> p \<and> p < d + b \<longrightarrow> Q p"
  show "\<forall>p. a \<le> p \<and> p < b \<longrightarrow> Q (d + p)"
  proof (intro allI impI)
    fix p :: nat assume "a \<le> p \<and> p < b"
    then have "d + a \<le> d + p \<and> d + p < d + b" by arith
    with l show "Q (d + p)" by blast
  qed
next
  assume r: "\<forall>p. a \<le> p \<and> p < b \<longrightarrow> Q (d + p)"
  show "\<forall>p. d + a \<le> p \<and> p < d + b \<longrightarrow> Q p"
  proof (intro allI impI)
    fix p :: nat assume p: "d + a \<le> p \<and> p < d + b"
    then have "a \<le> p - d \<and> p - d < b" by arith
    with r have "Q (d + (p - d))" by blast
    moreover have "d + (p - d) = p" using p by arith
    ultimately show "Q p" by simp
  qed
qed

lemma is_maximal_run_drop:
  assumes "d \<le> length xs" and "0 < a"
  shows "is_maximal_run cls n xs (d + a, d + b) \<longleftrightarrow> is_maximal_run cls n (drop d xs) (a, b)"
proof -
  have "d + a - 1 = d + (a - 1)"
    using assms by simp
  then show ?thesis
    unfolding is_maximal_run_iff all_range_shift
    using assms by auto
qed

lemma is_maximal_run_drop0:
  assumes "d \<le> length xs"
  shows "is_maximal_run cls n xs (d, d + b) \<longleftrightarrow>
           is_maximal_run cls n (drop d xs) (0, b) \<and> (0 < d \<longrightarrow> xs ! (d - 1) \<notin> set cls)"
proof -
  have "is_maximal_run cls n xs (d + 0, d + b) \<longleftrightarrow>
           is_maximal_run cls n (drop d xs) (0, b) \<and> (0 < d \<longrightarrow> xs ! (d - 1) \<notin> set cls)"
    unfolding is_maximal_run_iff all_range_shift
    using assms by auto
  then show ?thesis by simp
qed

lemma shift_image_iff:
  "(a, b) \<in> shift d ` A \<longleftrightarrow> d \<le> a \<and> d \<le> b \<and> (a - d, b - d) \<in> A"
  by (force simp: shift_def image_iff)

lemma no_run_at_takeWhile_end:
  assumes "k = length (takeWhile (\<lambda>x. x \<in> set cls) xs)"
  shows "\<not> is_maximal_run cls n xs (k, b)"
proof
  assume run: "is_maximal_run cls n xs (k, b)"
  then have "k < length xs" and "xs ! k \<in> set cls"
    by (auto simp: is_maximal_run_iff)
  with nth_length_takeWhile [of "\<lambda>x. x \<in> set cls" xs] assms show False by simp
qed

lemma run_inside_takeWhile:
  assumes k: "k = length (takeWhile (\<lambda>x. x \<in> set cls) xs)"
    and run: "is_maximal_run cls n xs (a, b)" and a: "a < k"
  shows "a = 0 \<and> b = k"
proof -
  have inside: "xs ! p \<in> set cls" if "p < k" for p
    using that k takeWhile_all [of p "\<lambda>x. x \<in> set cls" xs] by simp
  have a0: "a = 0"
  proof (rule ccontr)
    assume "a \<noteq> 0"
    then have "xs ! (a - 1) \<notin> set cls" using run by (simp add: is_maximal_run_iff)
    moreover have "a - 1 < k" using a by simp
    ultimately show False using inside by blast
  qed
  have "b \<le> k"
    using run_from_start_le_takeWhile [of cls n xs b] run a0 k by simp
  moreover have "\<not> b < k"
  proof
    assume "b < k"
    then have "xs ! b \<in> set cls" by (rule inside)
    moreover have "b < length xs"
      using \<open>b < k\<close> k length_takeWhile_le [of "\<lambda>x. x \<in> set cls" xs] by simp
    ultimately show False using run by (simp add: is_maximal_run_iff)
  qed
  ultimately show ?thesis using a0 by simp
qed

lemma takeWhile_prefix_is_run:
  assumes k: "k = length (takeWhile (\<lambda>x. x \<in> set cls) xs)" and "0 < k" and "n \<le> k"
  shows "is_maximal_run cls n xs (0, k)"
proof -
  have "xs ! p \<in> set cls" if "p < k" for p
    using that k takeWhile_all [of p "\<lambda>x. x \<in> set cls" xs] by simp
  moreover have "k \<le> length xs"
    using k length_takeWhile_le [of "\<lambda>x. x \<in> set cls" xs] by simp
  moreover have "k < length xs \<longrightarrow> xs ! k \<notin> set cls"
    using k nth_length_takeWhile [of "\<lambda>x. x \<in> set cls" xs] by simp
  ultimately show ?thesis
    using assms(2,3) by (simp add: is_maximal_run_iff)
qed

lemma maximal_runs_match:
  assumes k: "k = length (takeWhile (\<lambda>x. x \<in> set cls) xs)" and "0 < k" and "n \<le> k"
  shows "{sp. is_maximal_run cls n xs sp}
         = insert (0, k) (shift k ` {sp. is_maximal_run cls n (drop k xs) sp})"
proof -
  have len: "k \<le> length xs"
    using k length_takeWhile_le [of "\<lambda>x. x \<in> set cls" xs] by simp
  have no0: "\<not> is_maximal_run cls n (drop k xs) (0, b)" for b
  proof
    assume "is_maximal_run cls n (drop k xs) (0, b)"
    then have "0 < b" and "b \<le> length (drop k xs)" and "drop k xs ! 0 \<in> set cls"
      by (auto simp: is_maximal_run_iff)
    then have "k < length xs" and "xs ! k \<in> set cls"
      using len by auto
    with nth_length_takeWhile [of "\<lambda>x. x \<in> set cls" xs] k show False by simp
  qed
  have "is_maximal_run cls n xs (a, b)
        \<longleftrightarrow> (a, b) = (0, k) \<or> (a, b) \<in> shift k ` {sp. is_maximal_run cls n (drop k xs) sp}"
    for a b
  proof (cases "a < k")
    case True
    have "is_maximal_run cls n xs (a, b) \<longleftrightarrow> (a, b) = (0, k)"
      using run_inside_takeWhile [OF k _ True] takeWhile_prefix_is_run [OF assms] by auto
    moreover have "(a, b) \<notin> shift k ` {sp. is_maximal_run cls n (drop k xs) sp}"
      using True by (simp add: shift_image_iff)
    ultimately show ?thesis by simp
  next
    case False
    show ?thesis
    proof (cases "a = k")
      case True
      have "\<not> is_maximal_run cls n xs (a, b)"
        unfolding True by (rule no_run_at_takeWhile_end [OF k])
      moreover have "(a, b) \<notin> shift k ` {sp. is_maximal_run cls n (drop k xs) sp}"
        using True no0 by (simp add: shift_image_iff)
      moreover have "(a, b) \<noteq> (0, k)" using True \<open>0 < k\<close> by simp
      ultimately show ?thesis by simp
    next
      case False
      with \<open>\<not> a < k\<close> have gt: "k < a" by simp
      have "is_maximal_run cls n xs (a, b) \<longrightarrow> a < b"
        by (simp add: is_maximal_run_iff)
      moreover have "is_maximal_run cls n xs (k + (a - k), k + (b - k))
             \<longleftrightarrow> is_maximal_run cls n (drop k xs) (a - k, b - k)"
        using gt by (intro is_maximal_run_drop [OF len]) simp
      ultimately show ?thesis
        using gt by (auto simp: shift_image_iff)
    qed
  qed
  then show ?thesis by auto
qed

lemma maximal_runs_skip:
  assumes "length (takeWhile (\<lambda>x. x \<in> set cls) (c # cs)) < n"
  shows "{sp. is_maximal_run cls n (c # cs) sp} = shift 1 ` {sp. is_maximal_run cls n cs sp}"
proof -
  have no0: "\<not> is_maximal_run cls n (c # cs) (0, b)" for b
    using run_from_start_le_takeWhile [of cls n "c # cs" b] assms by auto
  have head: "c \<notin> set cls" if "is_maximal_run cls n cs (0, b)" for b
  proof
    assume c: "c \<in> set cls"
    from run_from_start_le_takeWhile [OF that]
    have "n \<le> b" and "b \<le> length (takeWhile (\<lambda>x. x \<in> set cls) cs)" by simp_all
    with c assms show False by simp
  qed
  have "is_maximal_run cls n (c # cs) (a, b)
        \<longleftrightarrow> (a, b) \<in> shift 1 ` {sp. is_maximal_run cls n cs sp}" for a b
  proof (cases "a = 0")
    case True
    then show ?thesis using no0 by (simp add: shift_image_iff)
  next
    case False
    have lt: "is_maximal_run cls n (c # cs) (a, b) \<longrightarrow> a < b"
      by (simp add: is_maximal_run_iff)
    show ?thesis
    proof (cases "a = 1")
      case True
      have "is_maximal_run cls n (c # cs) (1, 1 + (b - 1))
            \<longleftrightarrow> is_maximal_run cls n (drop 1 (c # cs)) (0, b - 1)
                \<and> (0 < (1::nat) \<longrightarrow> (c # cs) ! (1 - 1) \<notin> set cls)"
        by (rule is_maximal_run_drop0) simp
      then show ?thesis
        using True lt head by (auto simp: shift_image_iff)
    next
      case False
      with \<open>a \<noteq> 0\<close> have gt: "1 < a" by simp
      have "is_maximal_run cls n (c # cs) (1 + (a - 1), 1 + (b - 1))
            \<longleftrightarrow> is_maximal_run cls n (drop 1 (c # cs)) (a - 1, b - 1)"
        using gt by (intro is_maximal_run_drop) simp_all
      then show ?thesis
        using gt lt by (auto simp: shift_image_iff)
    qed
  qed
  then show ?thesis by auto
qed

lemma shift_shift: "shift d (shift e sp) = shift (d + e) sp"
  by (simp add: shift_def)

lemma no_runs_Nil: "{sp. is_maximal_run cls n [] sp} = {}"
  by (auto simp: is_maximal_run_def)

lemma finditer_class_run_set:
  "0 < n \<Longrightarrow> set (finditer_class_run cls n pos xs) = shift pos ` {sp. is_maximal_run cls n xs sp}"
proof (induction cls n pos xs rule: finditer_class_run.induct)
  case (1 cls n pos)
  then show ?case by (simp add: no_runs_Nil)
next
  case (2 cls n pos c cs)
  define k where "k = length (takeWhile (\<lambda>x. x \<in> set cls) (c # cs))"
  show ?case
  proof (cases "n \<le> k")
    case True
    with \<open>0 < n\<close> have kpos: "0 < k" by simp
    have rec: "set (finditer_class_run cls n (pos + k) (drop k (c # cs)))
               = shift (pos + k) ` {sp. is_maximal_run cls n (drop k (c # cs)) sp}"
      using "2.IH"(1) [OF k_def] True kpos "2.prems" by simp
    have "finditer_class_run cls n pos (c # cs)
          = (pos, pos + k) # finditer_class_run cls n (pos + k) (drop k (c # cs))"
      using True kpos by (simp add: k_def [symmetric] Let_def del: takeWhile.simps drop_Suc_Cons)
    then have "set (finditer_class_run cls n pos (c # cs))
          = insert (pos, pos + k) (shift (pos + k) ` {sp. is_maximal_run cls n (drop k (c # cs)) sp})"
      using rec by simp
    also have "\<dots> = shift pos ` insert (0, k) (shift k ` {sp. is_maximal_run cls n (drop k (c # cs)) sp})"
      by (simp add: image_image shift_shift) (simp add: shift_def)
    also have "\<dots> = shift pos ` {sp. is_maximal_run cls n (c # cs) sp}"
      using maximal_runs_match [OF k_def kpos True] by simp
    finally show ?thesis .
  next
    case False
    then have lt: "k < n" by simp
    have rec: "set (finditer_class_run cls n (Suc pos) cs)
               = shift (Suc pos) ` {sp. is_maximal_run cls n cs sp}"
      using "2.IH"(3) [OF k_def] False "2.prems" by simp
    have "finditer_class_run cls n pos (c # cs) = finditer_class_run cls n (Suc pos) cs"
      using False by (simp add: k_def [symmetric] Let_def del: takeWhile.simps)
    then have "set (finditer_class_run cls n pos (c # cs))
               = shift (Suc pos) ` {sp. is_maximal_run cls n cs sp}"
      using rec by simp
    also have "\<dots> = shift pos ` shift 1 ` {sp. is_maximal_run cls n cs sp}"
      by (simp add: image_image shift_shift)
    also have "\<dots> = shift pos ` {sp. is_maximal_run cls n (c # cs) sp}"
      using maximal_runs_skip [of cls c cs n] lt by (simp add: k_def)
    finally show ?thesis .
  qed
qed

lemma finditer_class_run_sorted:
  "0 < n \<Longrightarrow> sorted_wrt (\<lambda>x y. snd x \<le> fst y) (finditer_class_run cls n pos xs)"
proof (induction cls n pos xs rule: finditer_class_run.induct)
  case (1 cls n pos)
  then show ?case by simp
next
  case (2 cls n pos c cs)
  define k where "k = length (takeWhile (\<lambda>x. x \<in> set cls) (c # cs))"
  show ?case
  proof (cases "n \<le> k")
    case True
    with \<open>0 < n\<close> have kpos: "0 < k" by simp
    have rec: "sorted_wrt (\<lambda>x y. snd x \<le> fst y) (finditer_class_run cls n (pos + k) (drop k (c # cs)))"
      using "2.IH"(1) [OF k_def] True kpos "2.prems" by simp
    have eq: "finditer_class_run cls n pos (c # cs)
          = (pos, pos + k) # finditer_class_run cls n (pos + k) (drop k (c # cs))"
      using True kpos by (simp add: k_def [symmetric] Let_def del: takeWhile.simps drop_Suc_Cons)
    have "\<forall>sp \<in> set (finditer_class_run cls n (pos + k) (drop k (c # cs))). pos + k \<le> fst sp"
      unfolding finditer_class_run_set [OF \<open>0 < n\<close>] by (auto simp: shift_def)
    with rec show ?thesis unfolding eq by simp
  next
    case False
    have rec: "sorted_wrt (\<lambda>x y. snd x \<le> fst y) (finditer_class_run cls n (Suc pos) cs)"
      using "2.IH"(3) [OF k_def] False "2.prems" by simp
    have "finditer_class_run cls n pos (c # cs) = finditer_class_run cls n (Suc pos) cs"
      using False by (simp add: k_def [symmetric] Let_def del: takeWhile.simps)
    with rec show ?thesis by simp
  qed
qed

section \<open>The span scanner under both exclusion policies\<close>

lemma shift_0: "shift 0 sp = sp"
  by (simp add: shift_def)

lemma finditer_set:
  "0 < n \<Longrightarrow> set (finditer (ClassRun cls n) str) = {sp. is_maximal_run cls n str sp}"
  using finditer_class_run_set [of n cls 0 str] by (simp add: shift_0 [abs_def])

lemma finditer_sorted:
  "0 < n \<Longrightarrow> sorted_wrt (\<lambda>x y. snd x \<le> fst y) (finditer (ClassRun cls n) str)"
  using finditer_class_run_sorted [of n cls 0 str] by simp

lemma kept_positions_increasing: "sorted_wrt (<) (kept_positions str exclude)"
  unfolding kept_positions_def by (intro sorted_wrt_filter) (rule sorted_wrt_upt)

lemma length_searchable_text:
  "length (searchable_text str exclude) = length (kept_positions str exclude)"
  by (simp add: searchable_text_def)

lemma kept_positions_None: "kept_positions str None = [0..<length str]"
  by (simp add: kept_positions_def is_excluded_def)

lemma searchable_text_None: "searchable_text str None = str"
  by (simp add: searchable_text_def kept_positions_None map_nth)

lemma touches_excluded_None: "\<not> touches_excluded None sp"
  by (simp add: touches_excluded_def is_excluded_def)

lemma original_span_run_None:
  assumes "is_maximal_run cls n str m"
  shows "original_span (length str) [0..<length str] m = m"
proof -
  from assms have "fst m < snd m" and "snd m \<le> length str"
    by (simp_all add: is_maximal_run_def)
  then show ?thesis
    by (cases m) (simp add: original_span_def)
qed

lemma slices_from_regex_None:
  assumes "0 < n"
  shows "slices_from_regex policy s (ClassRun cls n) None = finditer (ClassRun cls n) (raw_string s)"
proof (cases policy)
  case SubtractBeforeMatching
  have "map (original_span (length (raw_string s)) [0..<length (raw_string s)])
          (finditer (ClassRun cls n) (raw_string s)) = finditer (ClassRun cls n) (raw_string s)"
    using finditer_set [OF assms, of cls "raw_string s"]
    by (intro map_idI original_span_run_None [of cls n]) auto
  then show ?thesis
    using SubtractBeforeMatching
    by (simp add: slices_from_regex_def kept_positions_None searchable_text_None del: finditer.simps)
next
  case FilterAfterMatching
  then show ?thesis
    by (simp add: slices_from_regex_def touches_excluded_None del: finditer.simps)
qed

lemma slices_from_regex_subtract_set:
  assumes "0 < n"
  shows "set (slices_from_regex SubtractBeforeMatching s (ClassRun cls n) exclude)
         = original_span (length (raw_string s)) (kept_positions (raw_string s) exclude)
             ` {m. is_maximal_run cls n (searchable_text (raw_string s) exclude) m}"
  using finditer_set [OF assms] by (simp add: slices_from_regex_def del: finditer.simps)

lemma slices_from_regex_filter_set:
  assumes "0 < n"
  shows "set (slices_from_regex FilterAfterMatching s (ClassRun cls n) exclude)
         = {m. is_maximal_run cls n (raw_string s) m \<and> \<not> touches_excluded exclude m}"
  using finditer_set [OF assms] by (auto simp: slices_from_regex_def simp del: finditer.simps)

lemma original_span_order:
  assumes x: "is_maximal_run cls n (searchable_text str exclude) x"
    and y: "is_maximal_run cls n (searchable_text str exclude) y"
    and xy: "snd x \<le> fst y"
  shows "snd (original_span (length str) (kept_positions str exclude) x)
           \<le> fst (original_span (length str) (kept_positions str exclude) y)"
proof -
  let ?lookup = "kept_positions str exclude"
  from x have x1: "fst x < snd x" by (simp add: is_maximal_run_def)
  from y have y1: "fst y < snd y" and y2: "snd y \<le> length ?lookup"
    by (simp_all add: is_maximal_run_def length_searchable_text)
  have "snd x - 1 < fst y" using x1 xy by simp
  moreover have "fst y < length ?lookup" using y1 y2 by simp
  ultimately have "?lookup ! (snd x - 1) < ?lookup ! fst y"
    using kept_positions_increasing [of str exclude] by (simp add: sorted_wrt_nth_less)
  then show ?thesis
    using x1 y1 by (simp add: original_span_def)
qed

lemma slices_from_regex_sorted:
  assumes "0 < n"
  shows "sorted_wrt (\<lambda>x y. snd x \<le> fst y) (slices_from_regex policy s (ClassRun cls n) exclude)"
proof (cases policy)
  case SubtractBeforeMatching
  let ?ms = "finditer (ClassRun cls n) (searchable_text (raw_string s) exclude)"
  let ?f = "original_span (length (raw_string s)) (kept_positions (raw_string s) exclude)"
  have "sorted_wrt (\<lambda>x y. snd (?f x) \<le> fst (?f y)) ?ms"
  proof (rule sorted_wrt_mono_rel [OF _ finditer_sorted [OF assms]])
    fix x y assume "x \<in> set ?ms" and "y \<in> set ?ms" and "snd x \<le> fst y"
    then show "snd (?f x) \<le> fst (?f y)"
      unfolding finditer_set [OF assms] by (intro original_span_order [of cls n]) simp_all
  qed
  then show ?thesis
    using SubtractBeforeMatching
    by (simp add: slices_from_regex_def sorted_wrt_map del: finditer.simps)
next
  case FilterAfterMatching
  then show ?thesis
    using finditer_sorted [OF assms, of cls "raw_string s"]
    by (simp add: slices_from_regex_def sorted_wrt_filter del: finditer.simps)
qed

lemma purine_example:
  "finditer (ClassRun ''AGR'' 4) ''AGGGGGT'' = [(0, 6)]"
  by (simp add: Let_def)

lemma pyrimidine_example:
  "finditer (ClassRun ''CTUY'' 4) ''AGGGGGT'' = []"
  by (simp add: Let_def)

lemma upt_7: "[0..<7] = [0, 1, 2, 3, 4, 5, 6]"
  by (simp add: upt_rec)

lemma kept_example:
  "kept_positions ''AGGGGGT'' (Some [(3, 4)]) = [0, 1, 2, 4, 5, 6]"
  by (simp add: kept_positions_def is_excluded_def upt_7)

lemma searchable_example:
  "searchable_text ''AGGGGGT'' (Some [(3, 4)]) = ''AGGGGT''"
  by (simp add: searchable_text_def kept_example)

text \<open>
  Excluding position 3 of \<^verbatim>\<open>AGGGGGT\<close>: with the excluded symbol subtracted before
  matching, the five remaining purines still form one run, reported as \<open>[0, 6)\<close>; with
  exclusion as a filter on matches, the only match touches the excluded position and
  nothing is reported.
\<close>

lemma purine_run_excluding_example:
  "motif_purine_run SubtractBeforeMatching
     \<lparr>raw_string = ''AGGGGGT'', seq_id = [], description = [], quality = None\<rparr> 4 (Some [(3, 4)]) = [(0, 6)]
   \<and> motif_purine_run FilterAfterMatching
     \<lparr>raw_string = ''AGGGGGT'', seq_id = [], description = [], quality = None\<rparr> 4 (Some [(3, 4)]) = []"
proof -
  have t: "touches_excluded (Some [(3, 4)]) (0, 6)"
    unfolding touches_excluded_def is_excluded_def by (rule bexI [of _ 3]) simp_all
  have f: "finditer (ClassRun ''AGR'' 4) ''AGGGGT'' = [(0, 5)]"
    by (simp add: Let_def)
  show ?thesis
    using t
    by (simp add: motif_purine_run_def slices_from_regex_def kept_example searchable_example
        original_span_def purine_example f del: finditer.simps)
qed

lemma purine_run_AGGGGGT:
  "motif_purine_run policy
     \<lparr>raw_string = ''AGGGGGT'', seq_id = [], description = [], quality = None\<rparr> 4 None = [(0, 6)]"
proof -
  have four: "0 < (4::nat)" by simp
  show ?thesis
    unfolding motif_purine_run_def slices_from_regex_None [OF four]
    by (simp add: Let_def)
qed

text \<open>
  With \<open>min_length = 0\<close> the pattern \<^verbatim>\<open>([AGR]{0,})\<close> also matches the empty string:
  on the one-symbol sequence \<^verbatim>\<open>T\<close>, which holds no purine at all, the scan reports the
  empty spans at positions 0 and 1. This is why the characterisation by maximal runs is
  stated for \<open>min_length \<ge> 1\<close>.
\<close>

lemma purine_run_min_length_0_example:
  "motif_purine_run policy
     \<lparr>raw_string = ''T'', seq_id = [], description = [], quality = None\<rparr> 0 None = [(0, 0), (1, 1)]"
  by (cases policy)
    (simp_all add: motif_purine_run_def slices_from_regex_def kept_positions_None
      searchable_text_None touches_excluded_None original_span_def)

lemma find_motifs_known_examples:
  "find_motifs [(''purine-run'', motif_purine_run policy), (''pyrimidine-run'', motif_pyrimidine_run policy)]
     s (Some ''purine-run'') n ex = Inr (motif_purine_run policy s n ex)
   \<and> find_motifs [(''purine-run'', motif_purine_run policy), (''pyrimidine-run'', motif_pyrimidine_run policy)]
     s (Some ''pyrimidine-run'') n ex = Inr (motif_pyrimidine_run policy s n ex)"
  by (simp add: find_motifs_def)

section \<open>Motif detection: verified properties\<close>

text \<open>
  Claim C8, as amended. For \<open>min_length \<ge> 1\<close> the purine-run detector reports exactly
  the maximal runs of length at least \<open>min_length\<close> built only from the symbols A, G
  and R, outside the excluded spans, in increasing order and without overlap. Under the
  policy that subtracts excluded positions before matching these are the maximal runs of
  the remaining symbols, in the coordinates of the sequence; under the policy that filters
  matches they are the maximal runs of the sequence that contain no excluded position;
  without exclusions both are the maximal runs of the sequence. Scanning \<^verbatim>\<open>AGGGGGT\<close>
  with \<open>min_length = 4\<close> yields exactly one span, \<open>[0, 6)\<close>, which covers the six
  symbols \<^verbatim>\<open>AGGGGG\<close>, and the pyrimidine-run detector yields no span on that input.
\<close>

theorem purine_run_detector:
  assumes "0 < min_length"
  shows "set (motif_purine_run SubtractBeforeMatching s min_length exclude)
           = original_span (length (raw_string s)) (kept_positions (raw_string s) exclude)
               ` {m. is_maximal_run ''AGR'' min_length (searchable_text (raw_string s) exclude) m}
       \<and> set (motif_purine_run FilterAfterMatching s min_length exclude)
           = {m. is_maximal_run ''AGR'' min_length (raw_string s) m \<and> \<not> touches_excluded exclude m}
       \<and> set (motif_purine_run policy s min_length None)
           = {m. is_maximal_run ''AGR'' min_length (raw_string s) m}
       \<and> sorted_wrt (\<lambda>x y. snd x \<le> fst y) (motif_purine_run policy s min_length exclude)
       \<and> motif_purine_run policy
            \<lparr>raw_string = ''AGGGGGT'', seq_id = i, description = d, quality = q\<rparr> 4 None = [(0, 6)]
       \<and> span_length (0, 6) = 6
       \<and> motif_pyrimidine_run policy
            \<lparr>raw_string = ''AGGGGGT'', seq_id = i, description = d, quality = q\<rparr> 4 None = []"
proof -
  have four: "0 < (4::nat)" by simp
  have a: "set (motif_purine_run SubtractBeforeMatching s min_length exclude)
           = original_span (length (raw_string s)) (kept_positions (raw_string s) exclude)
               ` {m. is_maximal_run ''AGR'' min_length (searchable_text (raw_string s) exclude) m}"
    unfolding motif_purine_run_def by (rule slices_from_regex_subtract_set [OF assms])
  have b: "set (motif_purine_run FilterAfterMatching s min_length exclude)
           = {m. is_maximal_run ''AGR'' min_length (raw_string s) m \<and> \<not> touches_excluded exclude m}"
    unfolding motif_purine_run_def by (rule slices_from_regex_filter_set [OF assms])
  have c: "set (motif_purine_run policy s min_length None)
           = {m. is_maximal_run ''AGR'' min_length (raw_string s) m}"
    unfolding motif_purine_run_def slices_from_regex_None [OF assms]
    by (rule finditer_set [OF assms])
  have d: "sorted_wrt (\<lambda>x y. snd x \<le> fst y) (motif_purine_run policy s min_length exclude)"
    unfolding motif_purine_run_def by (rule slices_from_regex_sorted [OF assms])
  have e: "motif_purine_run policy
            \<lparr>raw_string = ''AGGGGGT'', seq_id = i, description = d, quality = q\<rparr> 4 None = [(0, 6)]"
    unfolding motif_purine_run_def slices_from_regex_None [OF four]
    by (simp add: Let_def)
  have f: "motif_pyrimidine_run policy
            \<lparr>raw_string = ''AGGGGGT'', seq_id = i, description = d, quality = q\<rparr> 4 None = []"
    unfolding motif_pyrimidine_run_def slices_from_regex_None [OF four]
    by (simp add: Let_def)
  have g: "span_length (0, 6) = 6" by (simp add: span_length_def)
  from a b c d e f g show ?thesis by (simp only: simp_thms)
qed

theorem purine_run_detector_witness:
  "0 < (4::nat)
   \<and> motif_purine_run SubtractBeforeMatching
        \<lparr>raw_string = ''AGGGGGT'', seq_id = [], description = [], quality = None\<rparr> 4 None = [(0, 6)]
   \<and> motif_purine_run FilterAfterMatching
        \<lparr>raw_string = ''AGGGGGT'', seq_id = [], description = [], quality = None\<rparr> 4 None = [(0, 6)]
   \<and> motif_pyrimidine_run FilterAfterMatching
        \<lparr>raw_string = ''AGGGGGT'', seq_id = [], description = [], quality = None\<rparr> 4 None = []"
proof -
  have four: "0 < (4::nat)" by simp
  note w1 = purine_run_detector [OF four, of "\<lparr>raw_string = ''AGGGGGT'', seq_id = [], description = [], quality = None\<rparr>"
      None SubtractBeforeMatching "[]" "[]" None]
  note w2 = purine_run_detector [OF four, of "\<lparr>raw_string = ''AGGGGGT'', seq_id = [], description = [], quality = None\<rparr>"
      None FilterAfterMatching "[]" "[]" None]
  from w1 have a: "motif_purine_run SubtractBeforeMatching
        \<lparr>raw_string = ''AGGGGGT'', seq_id = [], description = [], quality = None\<rparr> 4 None = [(0, 6)]"
    by blast
  from w2 have b: "motif_purine_run FilterAfterMatching
        \<lparr>raw_string = ''AGGGGGT'', seq_id = [], description = [], quality = None\<rparr> 4 None = [(0, 6)]"
    and c: "motif_pyrimidine_run FilterAfterMatching
        \<lparr>raw_string = ''AGGGGGT'', seq_id = [], description = [], quality = None\<rparr> 4 None = []"
    by blast+
  from four a b c show ?thesis by (simp only: simp_thms)
qed

text \<open>
  Claim C8 as stated has the single span cover a run of five symbols. The run of A and G
  in \<^verbatim>\<open>AGGGGGT\<close> is \<^verbatim>\<open>AGGGGG\<close>, one A and five G: the span is \<open>[0, 6)\<close> and its
  length is 6, not 5, under either exclusion policy.
\<close>

theorem purine_run_example_span_has_six_symbols:
  "motif_purine_run SubtractBeforeMatching
     \<lparr>raw_string = ''AGGGGGT'', seq_id = [], description = [], quality = None\<rparr> 4 None = [(0, 6)]
   \<and> motif_purine_run FilterAfterMatching
     \<lparr>raw_string = ''AGGGGGT'', seq_id = [], description = [], quality = None\<rparr> 4 None = [(0, 6)]
   \<and> map span_length (motif_purine_run SubtractBeforeMatching
     \<lparr>raw_string = ''AGGGGGT'', seq_id = [], description = [], quality = None\<rparr> 4 None) \<noteq> [5]
   \<and> map span_length (motif_purine_run FilterAfterMatching
     \<lparr>raw_string = ''AGGGGGT'', seq_id = [], description = [], quality = None\<rparr> 4 None) \<noteq> [5]"
  unfolding purine_run_AGGGGGT by (simp add: span_length_def)

text \<open>
  Claim C9. For every registry, that is for every family, every sequence and every name
  with no entry in the registry, \<^verbatim>\<open>find_motifs\<close> with that name fails with the
  unknown-motif condition, which is of the \<^verbatim>\<open>LookupError\<close> class, and returns no spans
  at all.
\<close>

theorem find_motifs_unknown_name:
  assumes "map_of reg name = None"
  shows "find_motifs reg s (Some name) min_length exclude = Inl (UnknownMotif name)
       \<and> is_LookupError (UnknownMotif name)
       \<and> (\<forall>spans. find_motifs reg s (Some name) min_length exclude \<noteq> Inr spans)"
  using assms by (simp add: find_motifs_def)

theorem find_motifs_unknown_name_witness:
  "nucleotide_motifs FilterAfterMatching []
     = Inr [(''purine-run'', motif_purine_run FilterAfterMatching),
            (''pyrimidine-run'', motif_pyrimidine_run FilterAfterMatching)]
   \<and> map_of [(''purine-run'', motif_purine_run FilterAfterMatching),
            (''pyrimidine-run'', motif_pyrimidine_run FilterAfterMatching)] ''nonexistent-motif'' = None
   \<and> find_motifs [(''purine-run'', motif_purine_run FilterAfterMatching),
            (''pyrimidine-run'', motif_pyrimidine_run FilterAfterMatching)]
        \<lparr>raw_string = ''AGGGGGT'', seq_id = [], description = [], quality = None\<rparr>
        (Some ''nonexistent-motif'') 4 None = Inl (UnknownMotif ''nonexistent-motif'')
   \<and> is_LookupError (UnknownMotif ''nonexistent-motif'')"
proof -
  let ?reg = "[(''purine-run'', motif_purine_run FilterAfterMatching),
            (''pyrimidine-run'', motif_pyrimidine_run FilterAfterMatching)]"
  have r: "nucleotide_motifs FilterAfterMatching [] = Inr ?reg"
    by (simp add: nucleotide_motifs_def register_def registry_copy_def)
  have m: "map_of ?reg ''nonexistent-motif'' = None" by simp
  from find_motifs_unknown_name [OF m, of "\<lparr>raw_string = ''AGGGGGT'', seq_id = [], description = [], quality = None\<rparr>" 4 None]
    r m show ?thesis by simp
qed

end
